theory Spec2Isabelle
  imports Complex_Main "HOL-Library.Word"
begin

section \<open>Values crossing the script boundary\<close>

text \<open>
  The plugin bridge of \<^verbatim>\<open>src/plugin-core/Lua/lua.cpp\<close> exchanges values with the
  script through the interpreter's stack. A primitive returns the values it pushed, in
  the order it pushed them. A C \<^verbatim>\<open>double\<close> is modelled as a \<^typ>\<open>real\<close>: the
  arithmetic below is the exact arithmetic of the formulas of the source, without the
  rounding of the machine (no NaN, no infinity, no rounding error).
\<close>

datatype lua_value =
    LNil
  | LBool bool
  | LInteger int
  | LNumber real
  | LString string

text \<open>
  What a call of a primitive does, as far as the script and the host can see:
  it returns the pushed values, or it reports an error through
  \<^verbatim>\<open>handle_call_to_c_error\<close> (the message box) and returns nothing, or it stops at
  a failed \<^verbatim>\<open>assert\<close>.
\<close>

datatype 'a outcome =
    Returned 'a
  | ScriptError string
  | AssertionFailure

section \<open>Colour-space conversion\<close>

text \<open>The C cast \<^verbatim>\<open>(int)d\<close> of a double: truncation towards zero.\<close>

definition to_int :: "real \<Rightarrow> int" where
  "to_int d = (if 0 \<le> d then \<lfloor>d\<rfloor> else \<lceil>d\<rceil>)"

text \<open>
  \<^verbatim>\<open>fmod(x, y)\<close> of the C library: \<^verbatim>\<open>x - n * y\<close> where \<^verbatim>\<open>n\<close> is
  \<^verbatim>\<open>x / y\<close> with its fractional part cut off; the result has the sign of \<^verbatim>\<open>x\<close>.
\<close>

definition fmod :: "real \<Rightarrow> real \<Rightarrow> real" where
  "fmod x y = x - of_int (to_int (x / y)) * y"

text \<open>
  \<^verbatim>\<open>
  double euclidean_modulo(double x, double y){
      if (x < 0)
          x = y - fmod(-x, y);
      if (x >= y)
          x = fmod(x, y);
      return x;
  }
  \<close>
\<close>

definition euclidean_modulo :: "real \<Rightarrow> real \<Rightarrow> real" where
  "euclidean_modulo x y =
     (let x1 = (if x < 0 then y - fmod (- x) y else x);
          x2 = (if x1 \<ge> y then fmod x1 y else x1)
      in x2)"

text \<open>
  \<^verbatim>\<open>rgb_to_hsv\<close> (lines 151-200, with \<^verbatim>\<open>MINIMIZE_CHECKING\<close> defined, so the
  parameter-count and type checks are compiled out). The three parameters are read
  with \<^verbatim>\<open>lua_tonumber\<close>; each is checked against [0, 255] and divided by 255.
  The three results are pushed with \<^verbatim>\<open>lua_pushnumber\<close>: hue, sat, val.
\<close>

definition rgb_range_msg :: string where
  "rgb_range_msg = ''All parameters should be in the range [0; 255].''"

definition rgb_to_hsv :: "real \<Rightarrow> real \<Rightarrow> real \<Rightarrow> (real \<times> real \<times> real) outcome" where
  "rgb_to_hsv r0 g0 b0 =
     (if r0 < 0 \<or> r0 > 255 then ScriptError rgb_range_msg
      else if g0 < 0 \<or> g0 > 255 then ScriptError rgb_range_msg
      else if b0 < 0 \<or> b0 > 255 then ScriptError rgb_range_msg
      else
        let r = r0 / 255; g = g0 / 255; b = b0 / 255;
            mx = max r (max g b);
            mn = min r (min g b);
            delta = mx - mn;
            val = mx;
            sat = (if mx = 0 then 0 else delta / mx);
            hue = (if delta = 0 \<or> sat = 0 then 0
                   else (if val = r then euclidean_modulo ((g - b) / delta) 6
                         else if val = g then (b - r) / delta + 2
                         else (r - g) / delta + 4) * 60)
        in Returned (hue, sat, val))"

section \<open>Results of store operations and what a primitive hands back\<close>

text \<open>
  Every operation of the interpreter object (\<^verbatim>\<open>LuaInterpreter\<close>, declared outside
  this file) answers with a call result; the bridge reads \<^verbatim>\<open>res.success\<close>,
  \<^verbatim>\<open>res.results[i]\<close> and \<^verbatim>\<open>res.message\<close>. The operations themselves are
  not part of the bridge, so each primitive below takes the call result of its
  operation as an argument.
\<close>

record call_result =
  success :: bool
  results :: "nat \<Rightarrow> int"
  message :: string

text \<open>
  A primitive may report through \<^verbatim>\<open>handle_call_to_c_error(state, __FUNCTION__, msg)\<close>
  (one modal message box naming the function and the message) and returns the values
  it pushed: \<^verbatim>\<open>reported\<close> is the function name and message of the report, if any,
  \<^verbatim>\<open>returned\<close> the pushed values in order.
\<close>

record primitive_return =
  reported :: "(string \<times> string) option"
  returned :: "lua_value list"

definition gave_back :: "lua_value list \<Rightarrow> primitive_return" where
  "gave_back vs = \<lparr>reported = None, returned = vs\<rparr>"

definition failed_with :: "string \<Rightarrow> string \<Rightarrow> lua_value list \<Rightarrow> primitive_return" where
  "failed_with fn msg vs = \<lparr>reported = Some (fn, msg), returned = vs\<rparr>"

text \<open>\<^verbatim>\<open>load_image\<close> (lines 64-86).\<close>

definition load_image :: "call_result \<Rightarrow> primitive_return" where
  "load_image res =
     (if success res then gave_back [LInteger (results res 0)]
      else failed_with ''load_image'' (message res) [LNil, LString (message res)])"

text \<open>
  \<^verbatim>\<open>allocate_image\<close> (lines 88-116): \<^verbatim>\<open>w\<close> and \<^verbatim>\<open>h\<close> are the two
  parameters after \<^verbatim>\<open>(int)lua_tointeger\<close>; the operation is called only when both
  are positive.
\<close>

definition allocate_image :: "int \<Rightarrow> int \<Rightarrow> call_result \<Rightarrow> primitive_return" where
  "allocate_image w h res =
     (if w \<le> 0 \<or> h \<le> 0
      then failed_with ''allocate_image'' ''Both parameters must be greater than zero.''
             [LNil, LString ''Both parameters must be greater than zero.'']
      else if success res then gave_back [LInteger (results res 0)]
      else failed_with ''allocate_image'' (message res) [LNil, LString (message res)])"

text \<open>\<^verbatim>\<open>unload_image\<close> (lines 366-382): nothing is pushed on either path.\<close>

definition unload_image :: "call_result \<Rightarrow> primitive_return" where
  "unload_image res =
     (if \<not> success res then failed_with ''unload_image'' (message res) []
      else gave_back [])"

text \<open>
  \<^verbatim>\<open>get_pixel\<close> (lines 384-415): \<^verbatim>\<open>params[1]\<close> and \<^verbatim>\<open>params[2]\<close> are
  the coordinates; a negative one is reported before the operation is called.
\<close>

definition get_pixel :: "int \<Rightarrow> int \<Rightarrow> call_result \<Rightarrow> primitive_return" where
  "get_pixel x y res =
     (if x < 0 \<or> y < 0 then failed_with ''get_pixel'' ''Coordinates may not be negative.'' []
      else if \<not> success res then failed_with ''get_pixel'' (message res) []
      else gave_back (map (\<lambda>i. LInteger (results res i)) [0 ..< 4]))"

text \<open>
  \<^verbatim>\<open>get_image_dimensions\<close> (lines 417-437): its two argument checks are not under
  \<^verbatim>\<open>MINIMIZE_CHECKING\<close>. \<^verbatim>\<open>gettop\<close> is \<^verbatim>\<open>lua_gettop(state)\<close> and
  \<^verbatim>\<open>isnum\<close> is \<^verbatim>\<open>lua_isnumber(state, 1)\<close>.
\<close>

definition get_image_dimensions :: "nat \<Rightarrow> bool \<Rightarrow> call_result \<Rightarrow> primitive_return" where
  "get_image_dimensions gettop isnum res =
     (if gettop < 1 then failed_with ''get_image_dimensions'' ''Not enough parameters.'' []
      else if \<not> isnum
        then failed_with ''get_image_dimensions'' ''The parameter should be an integer.'' []
      else if \<not> success res then failed_with ''get_image_dimensions'' (message res) []
      else gave_back (map (\<lambda>i. LInteger (results res i)) [0 ..< 2]))"

text \<open>\<^verbatim>\<open>display_in_current_window\<close> (lines 576-597).\<close>

definition display_in_current_window :: "call_result \<Rightarrow> primitive_return" where
  "display_in_current_window res =
     (if success res then gave_back [LBool True]
      else failed_with ''display_in_current_window'' (message res) [LBool False])"

section \<open>Saving an image\<close>

text \<open>
  \<^verbatim>\<open>SaveOptions\<close> is declared outside this file; the bridge assigns its fields
  \<^verbatim>\<open>format\<close> and \<^verbatim>\<open>compression\<close>. A freshly constructed \<^verbatim>\<open>SaveOptions\<close>
  is a parameter of the model.
\<close>

record SaveOptions =
  format :: string
  compression :: "32 word"

text \<open>
  The third parameter of \<^verbatim>\<open>save_image\<close>, when it is a table: for each of the two
  keys, what the reads of lines 304-318 find. \<^verbatim>\<open>format_field\<close> is
  \<^verbatim>\<open>Some s\<close> when \<^verbatim>\<open>lua_isstring\<close> holds of the field and \<^verbatim>\<open>lua_tostring\<close>
  gives \<^verbatim>\<open>s\<close>; \<^verbatim>\<open>compression_field\<close> is \<^verbatim>\<open>Some n\<close> when
  \<^verbatim>\<open>lua_isnumber\<close> holds of the field and \<^verbatim>\<open>lua_tointeger\<close> gives \<^verbatim>\<open>n\<close>.
\<close>

record options_table =
  format_field :: "string option"
  compression_field :: "int option"

text \<open>\<^verbatim>\<open>tolower\<close> in the C locale, and \<^verbatim>\<open>to_lower\<close> (lines 285-287).\<close>

definition tolower :: "char \<Rightarrow> char" where
  "tolower c =
     (if 65 \<le> (of_char c :: nat) \<and> (of_char c :: nat) \<le> 90
      then char_of ((of_char c :: nat) + 32) else c)"

definition to_lower :: "string \<Rightarrow> string" where
  "to_lower s = map tolower s"

text \<open>The cast \<^verbatim>\<open>(int)\<close> of a \<^verbatim>\<open>lua_Integer\<close>: the low 32 bits.\<close>

definition int_cast :: "int \<Rightarrow> 32 word" where
  "int_cast n = word_of_int n"

text \<open>Lines 301-320: how the options passed to the interpreter are built.\<close>

definition read_save_options :: "SaveOptions \<Rightarrow> options_table option \<Rightarrow> SaveOptions" where
  "read_save_options fresh tbl =
     (case tbl of
        None \<Rightarrow> fresh
      | Some t \<Rightarrow>
          let opt1 = (case format_field t of
                        Some s \<Rightarrow> fresh\<lparr>format := to_lower s\<rparr>
                      | None \<Rightarrow> fresh);
              opt2 = (case compression_field t of
                        Some n \<Rightarrow> opt1\<lparr>compression := int_cast n\<rparr>
                      | None \<Rightarrow> opt1)
          in opt2)"

text \<open>
  \<^verbatim>\<open>save_image\<close> (lines 289-333). \<^verbatim>\<open>save_op\<close> is the interpreter's
  \<^verbatim>\<open>save_image(handle, path, opt)\<close>. The result pairs the options handed to the
  interpreter with what the script gets back.
\<close>

definition save_image ::
  "(32 word \<Rightarrow> string \<Rightarrow> SaveOptions \<Rightarrow> call_result) \<Rightarrow> SaveOptions \<Rightarrow>
     int \<Rightarrow> string \<Rightarrow> options_table option \<Rightarrow> SaveOptions \<times> primitive_return" where
  "save_image save_op fresh h path tbl =
     (let handle = int_cast h;
          opt = read_save_options fresh tbl;
          res = save_op handle path opt
      in (opt,
          if success res then gave_back [LBool True]
          else failed_with ''save_image'' (message res) [LBool False]))"

text \<open>
  A stand-in for the interpreter's save operation that never finds the handle, to run
  the bridge on a failing operation.
\<close>

definition rejecting_save :: "32 word \<Rightarrow> string \<Rightarrow> SaveOptions \<Rightarrow> call_result" where
  "rejecting_save handle path opt =
     \<lparr>success = False, results = (\<lambda>_. 0), message = ''HandleNotFound''\<rparr>"

text \<open>
  The failure signal the specification describes: a null or false first value followed
  by an error-message string.
\<close>

fun lua_falsy :: "lua_value \<Rightarrow> bool" where
  "lua_falsy LNil = True"
| "lua_falsy (LBool b) = (\<not> b)"
| "lua_falsy _ = False"

fun falsy_with_message :: "lua_value list \<Rightarrow> bool" where
  "falsy_with_message [p, LString m] = lua_falsy p"
| "falsy_with_message _ = False"

text \<open>What the first value is when the script reads it: an absent value reads as nil.\<close>

fun primary :: "lua_value list \<Rightarrow> lua_value" where
  "primary [] = LNil"
| "primary (p # _) = p"


section \<open>Traversal\<close>

text \<open>
  \<^verbatim>\<open>LuaInterpreter::traverse\<close> and the image class are not among the sources; only
  the call at lines 132-146 is. The image and the operation are therefore taken from the
  specification.
\<close>

text \<open>
  Modelled from the spec: the image (the image class is missing). A width and a height
  in pixels and a row-major buffer of bytes, four per pixel (the stride) in the order
  R, G, B, A; \<^verbatim>\<open>pitch\<close> is the number of bytes of a row.
\<close>

record image =
  width :: nat
  height :: nat
  pitch :: nat
  buffer :: "8 word list"

text \<open>
  Modelled from the spec: the read of one channel of a pixel (the image class is
  missing): row \<open>y\<close> starts at \<open>y * pitch\<close>, pixel \<open>x\<close> of the row at
  \<open>4 * x\<close> from there, and \<open>c\<close> \<open>= 0, 1, 2, 3\<close> is R, G, B, A.
\<close>

definition channel :: "image \<Rightarrow> nat \<Rightarrow> nat \<Rightarrow> nat \<Rightarrow> int" where
  "channel img x y c = uint (buffer img ! (y * pitch img + 4 * x + c))"

text \<open>
  The callback type of \<^verbatim>\<open>traverse\<close>, as the lambda of lines 134-144 has it:
  \<^verbatim>\<open>(void *State, int r, int g, int b, int a, int x, int y)\<close>, with the state
  behind \<^verbatim>\<open>State\<close> passed through.
\<close>

type_synonym 's pixel_callback = "int \<Rightarrow> int \<Rightarrow> int \<Rightarrow> int \<Rightarrow> int \<Rightarrow> int \<Rightarrow> 's \<Rightarrow> 's"

text \<open>
  Modelled from the spec: the loop over the columns of row \<open>y\<close>, from column \<open>x\<close> on
  (\<^verbatim>\<open>LuaInterpreter::traverse\<close> is missing): "columns left to right", the callback
  called with the 8-bit channel values of the pixel and its 0-based coordinates.
\<close>

function traverse_columns :: "image \<Rightarrow> 's pixel_callback \<Rightarrow> nat \<Rightarrow> nat \<Rightarrow> 's \<Rightarrow> 's" where
  "traverse_columns img cb y x st =
     (if x < width img
      then traverse_columns img cb y (Suc x)
             (cb (channel img x y 0) (channel img x y 1) (channel img x y 2)
                 (channel img x y 3) (int x) (int y) st)
      else st)"
  by pat_completeness auto
termination
  by (relation "measure (\<lambda>(img, cb, y, x, st). width img - x)") auto

declare traverse_columns.simps [simp del]

text \<open>
  Modelled from the spec: the loop over the rows, from row \<open>y\<close> on
  (\<^verbatim>\<open>LuaInterpreter::traverse\<close> is missing): "row 0 first".
\<close>

function traverse_rows :: "image \<Rightarrow> 's pixel_callback \<Rightarrow> nat \<Rightarrow> 's \<Rightarrow> 's" where
  "traverse_rows img cb y st =
     (if y < height img
      then traverse_rows img cb (Suc y) (traverse_columns img cb y 0 st)
      else st)"
  by pat_completeness auto
termination
  by (relation "measure (\<lambda>(img, cb, y, st). height img - y)") auto

declare traverse_rows.simps [simp del]

text \<open>
  Modelled from the spec: the two call results of the store's operation
  (\<^verbatim>\<open>LuaInterpreter::traverse\<close> is missing): the failure \<^verbatim>\<open>HandleNotFound\<close>
  and a success without payload.
\<close>

definition handle_not_found :: call_result where
  "handle_not_found = \<lparr>success = False, results = (\<lambda>_. 0), message = ''HandleNotFound''\<rparr>"

definition succeeded :: call_result where
  "succeeded = \<lparr>success = True, results = (\<lambda>_. 0), message = []\<rparr>"

text \<open>
  Modelled from the spec: the store's \<^verbatim>\<open>traverse(handle, callback)\<close>
  (\<^verbatim>\<open>LuaInterpreter::traverse\<close> is missing). The store maps handles to images; an
  unknown handle fails with \<^verbatim>\<open>HandleNotFound\<close> and calls nothing.
\<close>

definition traverse ::
  "(int \<rightharpoonup> image) \<Rightarrow> int \<Rightarrow> 's pixel_callback \<Rightarrow> 's \<Rightarrow> call_result \<times> 's" where
  "traverse store h cb st =
     (case store h of
        None \<Rightarrow> (handle_not_found, st)
      | Some img \<Rightarrow> (succeeded, traverse_rows img cb 0 st))"

text \<open>
  \<^verbatim>\<open>traverse_image\<close> (lines 118-149). \<^verbatim>\<open>imgno\<close> is the first parameter after
  \<^verbatim>\<open>(int)lua_tointeger\<close>; \<^verbatim>\<open>script_callback\<close> is the script function at
  stack index 2, called by \<^verbatim>\<open>lua_call(state, 6, 0)\<close> with the six values the
  lambda pushed, and \<^verbatim>\<open>'s\<close> is the state of the script. The result of the
  operation is dropped and nothing is returned to the script.
\<close>

definition traverse_image ::
  "(int \<rightharpoonup> image) \<Rightarrow> int \<Rightarrow> (lua_value list \<Rightarrow> 's \<Rightarrow> 's) \<Rightarrow> 's \<Rightarrow> lua_value list \<times> 's" where
  "traverse_image store imgno script_callback st =
     (let (res, st') =
            traverse store imgno
              (\<lambda>r g b a x y.
                 script_callback
                   [LInteger r, LInteger g, LInteger b, LInteger a, LInteger x, LInteger y])
              st
      in ([], st'))"

text \<open>
  The specification's own words for the visits: the pixels in row-major order, each
  with its argument list (r, g, b, a, x, y).
\<close>

definition pixel_arguments :: "image \<Rightarrow> nat \<Rightarrow> nat \<Rightarrow> lua_value list" where
  "pixel_arguments img x y =
     [LInteger (channel img x y 0), LInteger (channel img x y 1),
      LInteger (channel img x y 2), LInteger (channel img x y 3),
      LInteger (int x), LInteger (int y)]"

definition row_major_visits :: "image \<Rightarrow> lua_value list list" where
  "row_major_visits img =
     concat (map (\<lambda>y. map (\<lambda>x. pixel_arguments img x y) [0 ..< width img])
                 [0 ..< height img])"

section \<open>The zig-zag scan order\<close>

datatype ZigZagState =
    Initial
  | RightwardsOnTop
  | DownLeft
  | DownwardsOnLeft
  | UpRight
  | DownwardsOnRight
  | RightwardsOnBottom
  | End

text \<open>The enumerators as integers: \<^verbatim>\<open>Initial = 0\<close>, ..., \<^verbatim>\<open>End = -1\<close>.\<close>

fun state_code :: "ZigZagState \<Rightarrow> 32 word" where
  "state_code Initial = 0"
| "state_code RightwardsOnTop = 1"
| "state_code DownLeft = 2"
| "state_code DownwardsOnLeft = 3"
| "state_code UpRight = 4"
| "state_code DownwardsOnRight = 5"
| "state_code RightwardsOnBottom = 6"
| "state_code End = - 1"

definition state_of_code :: "32 word \<Rightarrow> ZigZagState option" where
  "state_of_code c =
     (if c = 0 then Some Initial
      else if c = 1 then Some RightwardsOnTop
      else if c = 2 then Some DownLeft
      else if c = 3 then Some DownwardsOnLeft
      else if c = 4 then Some UpRight
      else if c = 5 then Some DownwardsOnRight
      else if c = 6 then Some RightwardsOnBottom
      else if c = - 1 then Some End
      else None)"

text \<open>
  The macros \<^verbatim>\<open>allleft\<close>, \<^verbatim>\<open>allright\<close>, \<^verbatim>\<open>attop\<close> and
  \<^verbatim>\<open>atbottom\<close> on 32-bit \<^verbatim>\<open>int\<close>s (arithmetic modulo \<open>2 ^ 32\<close>).
\<close>

definition allleft :: "32 word \<Rightarrow> bool" where
  "allleft x = (x = 0)"

definition allright :: "32 word \<Rightarrow> 32 word \<Rightarrow> bool" where
  "allright x w = (x = w - 1)"

definition attop :: "32 word \<Rightarrow> bool" where
  "attop y = (y = 0)"

definition atbottom :: "32 word \<Rightarrow> 32 word \<Rightarrow> bool" where
  "atbottom y h = (y = h - 1)"

text \<open>
  One pass through the \<^verbatim>\<open>switch\<close>: the new position and state, and whether the
  case did \<^verbatim>\<open>repeat++\<close> (the loop then runs the \<^verbatim>\<open>switch\<close> once more).
\<close>

fun zig_zag_case ::
  "32 word \<Rightarrow> 32 word \<Rightarrow> ZigZagState \<Rightarrow> 32 word \<Rightarrow> 32 word \<Rightarrow>
     (32 word \<times> 32 word \<times> ZigZagState) \<times> bool" where
  "zig_zag_case w h Initial x y = ((0, 0, RightwardsOnTop), False)"
| "zig_zag_case w h RightwardsOnTop x y =
     (if allright x w then ((x, y, DownwardsOnRight), True)
      else ((x + 1, y, DownLeft), False))"
| "zig_zag_case w h DownLeft x y =
     (if atbottom y h then ((x, y, RightwardsOnBottom), True)
      else if allleft x then ((x, y, DownwardsOnLeft), True)
      else ((x - 1, y + 1, DownLeft), False))"
| "zig_zag_case w h DownwardsOnLeft x y =
     (if atbottom y h then ((x, y, RightwardsOnBottom), True)
      else ((x, y + 1, UpRight), False))"
| "zig_zag_case w h UpRight x y =
     (if allright x w then ((x, y, DownwardsOnRight), True)
      else if attop y then ((x, y, RightwardsOnTop), True)
      else ((x + 1, y - 1, UpRight), False))"
| "zig_zag_case w h DownwardsOnRight x y =
     (if atbottom y h then ((x, y, End), True)
      else ((x, y + 1, DownLeft), False))"
| "zig_zag_case w h RightwardsOnBottom x y =
     (if allright x w then ((x, y, End), True)
      else ((x + 1, y, UpRight), False))"
| "zig_zag_case w h End x y = ((x, y, End), False)"

text \<open>
  The states that a case with \<^verbatim>\<open>repeat++\<close> can still go through before the loop
  stops: every such case moves to a state of smaller rank.
\<close>

fun rank :: "ZigZagState \<Rightarrow> nat" where
  "rank Initial = 0"
| "rank End = 0"
| "rank DownwardsOnRight = 1"
| "rank RightwardsOnBottom = 1"
| "rank RightwardsOnTop = 2"
| "rank DownwardsOnLeft = 2"
| "rank UpRight = 3"
| "rank DownLeft = 3"

text \<open>
  \<^verbatim>\<open>for (int repeat = 1; repeat--; ) switch (s) ...\<close>: the \<^verbatim>\<open>switch\<close> runs
  again exactly when the case it took did \<^verbatim>\<open>repeat++\<close>.
\<close>

function zig_zag_loop ::
  "32 word \<Rightarrow> 32 word \<Rightarrow> ZigZagState \<Rightarrow> 32 word \<Rightarrow> 32 word \<Rightarrow>
     32 word \<times> 32 word \<times> ZigZagState" where
  "zig_zag_loop w h s x y =
     (case zig_zag_case w h s x y of
        ((x', y', s'), again) \<Rightarrow>
          if again then zig_zag_loop w h s' x' y' else (x', y', s'))"
  by pat_completeness auto
termination
  apply (relation "measure (\<lambda>(w, h, s, x, y). rank s)")
   apply simp
  subgoal for w h s x y
    by (cases s) (auto split: if_splits)
  done

declare zig_zag_loop.simps [simp del]

text \<open>
  The scan-order step on a state of the enumeration: the test of the bottom-right
  corner (lines 473-474), then the loop.
\<close>

definition zig_zag_step ::
  "32 word \<Rightarrow> 32 word \<Rightarrow> 32 word \<Rightarrow> 32 word \<Rightarrow> ZigZagState \<Rightarrow>
     32 word \<times> 32 word \<times> ZigZagState" where
  "zig_zag_step x y w h s =
     zig_zag_loop w h (if atbottom y h \<and> allright x w then End else s) x y"

text \<open>
  \<^verbatim>\<open>zig_zag_order\<close> (lines 450-560). Each parameter is \<^verbatim>\<open>None\<close> when
  \<^verbatim>\<open>lua_isnumber\<close> fails on it and \<^verbatim>\<open>Some n\<close> when \<^verbatim>\<open>lua_tointeger\<close>
  gives \<^verbatim>\<open>n\<close>. A state value that is none of the enumerators matches no case of
  the \<^verbatim>\<open>switch\<close>, and the loop ends after that pass.
\<close>

definition zig_zag_order :: "int option list \<Rightarrow> (int \<times> int \<times> int) outcome" where
  "zig_zag_order params =
     (if length params < 5 then ScriptError ''Not enough parameters.''
      else if \<exists>p \<in> set (take 5 params). p = None
        then ScriptError ''All parameters should be integers.''
      else
        let x = int_cast (the (params ! 0));
            y = int_cast (the (params ! 1));
            w = int_cast (the (params ! 2));
            h = int_cast (the (params ! 3));
            c = int_cast (the (params ! 4));
            c' = (if atbottom y h \<and> allright x w then state_code End else c)
        in case state_of_code c' of
             None \<Rightarrow> Returned (sint x, sint y, sint c')
           | Some s \<Rightarrow>
               (case zig_zag_loop w h s x y of
                  (x', y', s') \<Rightarrow> Returned (sint x', sint y', sint (state_code s'))))"

text \<open>
  Driving the generator as a script does: feed the returned position and state back in
  until \<^verbatim>\<open>End\<close> comes back, and collect the positions returned before that.
  \<^verbatim>\<open>None\<close> when \<^verbatim>\<open>End\<close> has not come back within \<^verbatim>\<open>fuel\<close> calls.
\<close>

fun zig_zag_walk ::
  "nat \<Rightarrow> 32 word \<Rightarrow> 32 word \<Rightarrow> 32 word \<Rightarrow> 32 word \<Rightarrow> ZigZagState \<Rightarrow>
     (32 word \<times> 32 word) list option" where
  "zig_zag_walk 0 w h x y s = None"
| "zig_zag_walk (Suc fuel) w h x y s =
     (case zig_zag_step x y w h s of
        (x', y', s') \<Rightarrow>
          if s' = End then Some []
          else map_option (\<lambda>rest. (x', y') # rest) (zig_zag_walk fuel w h x' y' s'))"

text \<open>
  The same drive on the primitive itself, as a script makes it: the three integers
  \<^verbatim>\<open>zig_zag_order\<close> returned are passed back as its first, second and fifth
  parameter until the state \<open>-1\<close> (\<^verbatim>\<open>End\<close>) comes back, and the positions
  returned before that are collected. \<^verbatim>\<open>None\<close> when \<^verbatim>\<open>End\<close> has not
  come back within \<^verbatim>\<open>fuel\<close> calls, or when a call reported an error.
\<close>

fun zig_zag_order_walk ::
  "nat \<Rightarrow> int \<Rightarrow> int \<Rightarrow> int \<Rightarrow> int \<Rightarrow> int \<Rightarrow> (int \<times> int) list option" where
  "zig_zag_order_walk 0 w h x y s = None"
| "zig_zag_order_walk (Suc fuel) w h x y s =
     (case zig_zag_order [Some x, Some y, Some w, Some h, Some s] of
        Returned (x', y', s') \<Rightarrow>
          if s' = - 1 then Some []
          else map_option (\<lambda>rest. (x', y') # rest) (zig_zag_order_walk fuel w h x' y' s')
      | ScriptError msg \<Rightarrow> None
      | AssertionFailure \<Rightarrow> None)"

section \<open>The displayed image\<close>

text \<open>
  \<^verbatim>\<open>get_displayed_image\<close> (lines 562-574). The state of a run, as far as this
  primitive touches it: the script global \<^verbatim>\<open>__current_image\<close> (nil in a fresh
  interpreter state) and how many times the interpreter's \<^verbatim>\<open>get_caller_image\<close>
  has been called. \<^verbatim>\<open>get_caller_image\<close>, outside this file, is a parameter: the
  handle it gives at its \<open>n\<close>-th call.
\<close>

record run_state =
  current_image_global :: lua_value
  resolutions :: nat

definition fresh_run :: run_state where
  "fresh_run = \<lparr>current_image_global = LNil, resolutions = 0\<rparr>"

definition get_displayed_image :: "(nat \<Rightarrow> int) \<Rightarrow> run_state \<Rightarrow> lua_value list \<times> run_state" where
  "get_displayed_image get_caller_image st =
     (if current_image_global st \<noteq> LNil then ([current_image_global st], st)
      else
        let image = get_caller_image (resolutions st);
            st1 = st\<lparr>resolutions := Suc (resolutions st)\<rparr>;
            st2 = st1\<lparr>current_image_global := LInteger image\<rparr>
        in ([LInteger image], st2))"

text \<open>\<open>n\<close> calls in a row: the values each call returned, and the state after the last.\<close>

fun get_displayed_image_times ::
  "nat \<Rightarrow> (nat \<Rightarrow> int) \<Rightarrow> run_state \<Rightarrow> lua_value list list \<times> run_state" where
  "get_displayed_image_times 0 gci st = ([], st)"
| "get_displayed_image_times (Suc n) gci st =
     (case get_displayed_image gci st of
        (vs, st') \<Rightarrow>
          (case get_displayed_image_times n gci st' of
             (rest, st'') \<Rightarrow> (vs # rest, st'')))"

section \<open>The sorted list of shortcuts\<close>

text \<open>
  \<^verbatim>\<open>find_all\<close> (lines 47-63 of the options dialog): the range is the list
  \<^verbatim>\<open>xs\<close> from index \<^verbatim>\<open>first\<close>, \<^verbatim>\<open>n\<close> elements long.
\<close>

function find_all_from :: "('a \<Rightarrow> bool) \<Rightarrow> 'a list \<Rightarrow> nat \<Rightarrow> nat \<Rightarrow> nat" where
  "find_all_from f xs first n =
     (if n > 0 then
        let n2 = n div 2;
            mid = first + n2
        in if \<not> f (xs ! mid) then find_all_from f xs (mid + 1) (n - (n2 + 1))
           else find_all_from f xs first n2
      else first)"
  by pat_completeness auto
termination
  by (relation "measure (\<lambda>(f, xs, first, n). n)") auto

declare find_all_from.simps [simp del]

definition find_all :: "'a list \<Rightarrow> ('a \<Rightarrow> bool) \<Rightarrow> nat" where
  "find_all xs f = find_all_from f xs 0 (length xs)"

record ('s, 'k) ShortcutTriple =
  command :: 's
  display_name :: 's
  sequence :: 'k

definition ShortcutTriple_order :: "('s::linorder, 'k) ShortcutTriple \<Rightarrow> ('s, 'k) ShortcutTriple \<Rightarrow> bool" where
  "ShortcutTriple_order a b = (display_name a < display_name b)"

definition sequence_already_exists :: "('s, 'k) ShortcutTriple list \<Rightarrow> 'k \<Rightarrow> bool" where
  "sequence_already_exists items seq = list_ex (\<lambda>i. sequence i = seq) items"

text \<open>
  \<^verbatim>\<open>ShortcutListModel::add_new_item\<close> (lines 65-84). \<^verbatim>\<open>get_shortcut_info\<close>
  gives the display name of a command, if the command is known; \<^verbatim>\<open>to_sequence\<close> is
  the conversion of the command string to a key sequence that the call
  \<^verbatim>\<open>sequence_already_exists(command)\<close> makes. The result is the new list and the
  position signalled by \<^verbatim>\<open>item_inserted_at\<close>, if an item was inserted.
\<close>

definition add_new_item ::
  "('s \<Rightarrow> 's option) \<Rightarrow> ('s \<Rightarrow> 'k) \<Rightarrow> ('s::linorder, 'k) ShortcutTriple list \<Rightarrow> 's \<Rightarrow> 'k \<Rightarrow>
     ('s, 'k) ShortcutTriple list \<times> nat option" where
  "add_new_item get_shortcut_info to_sequence items cmd seq =
     (if sequence_already_exists items (to_sequence cmd) then (items, None)
      else case get_shortcut_info cmd of
             None \<Rightarrow> (items, None)
           | Some info_display_name \<Rightarrow>
               let position = find_all items (\<lambda>a. info_display_name < display_name a);
                   triple = \<lparr>command = cmd, display_name = info_display_name, sequence = seq\<rparr>
               in (take position items @ triple # drop position items, Some position))"

section \<open>Properties of the colour-space conversion\<close>

lemma floor_mult_le: "0 < y \<Longrightarrow> of_int \<lfloor>x / y\<rfloor> * y \<le> (x::real)"
  by (simp add: pos_le_divide_eq [symmetric])

lemma lt_floor_mult: "0 < y \<Longrightarrow> (x::real) < (of_int \<lfloor>x / y\<rfloor> + 1) * y"
  by (simp add: pos_divide_less_eq [symmetric])

lemma fmod_nonneg:
  assumes "0 \<le> x" "0 < y"
  shows "fmod x y = x - of_int \<lfloor>x / y\<rfloor> * y"
  using assms by (simp add: fmod_def to_int_def)

lemma fmod_nonneg_range:
  assumes "0 \<le> x" "0 < y"
  shows "0 \<le> fmod x y \<and> fmod x y < y"
  using assms floor_mult_le [of y x] lt_floor_mult [of y x]
  by (simp add: fmod_nonneg algebra_simps)

lemma fmod_self: "0 < y \<Longrightarrow> fmod y y = 0"
  by (simp add: fmod_def to_int_def)

lemma euclidean_modulo_floor:
  assumes "0 < y"
  shows "euclidean_modulo x y = x - of_int \<lfloor>x / y\<rfloor> * y"
proof (cases "x < 0")
  case neg: True
  define k where "k = \<lfloor>- x / y\<rfloor>"
  have f: "fmod (- x) y = - x - of_int k * y"
    using neg assms by (simp add: fmod_nonneg k_def)
  have r: "0 \<le> fmod (- x) y \<and> fmod (- x) y < y"
    using fmod_nonneg_range [of "- x" y] neg assms by simp
  show ?thesis
  proof (cases "fmod (- x) y = 0")
    case True
    then have "x / y = of_int (- k)" using f assms by (simp add: field_simps)
    then have "\<lfloor>x / y\<rfloor> = - k" by (metis floor_of_int)
    then show ?thesis using True neg f assms
      by (simp add: euclidean_modulo_def fmod_self)
  next
    case False
    then have lt: "0 < fmod (- x) y" using r by simp
    have "of_int (- k - 1) \<le> x / y \<and> x / y < of_int (- k - 1) + 1"
      using lt r f assms by (simp add: field_simps)
    then have "\<lfloor>x / y\<rfloor> = - k - 1" by (simp add: floor_unique)
    then have fl: "real_of_int \<lfloor>x / y\<rfloor> = - of_int k - 1" by simp
    have e: "euclidean_modulo x y = y - fmod (- x) y"
      using neg lt by (simp add: euclidean_modulo_def)
    show ?thesis unfolding e f fl by (simp add: algebra_simps)
  qed
next
  case nonneg: False
  show ?thesis
  proof (cases "x < y")
    case True
    then have "\<lfloor>x / y\<rfloor> = 0" using nonneg assms by (simp add: floor_eq_iff)
    then show ?thesis using True nonneg by (simp add: euclidean_modulo_def)
  next
    case False
    then show ?thesis using nonneg assms by (simp add: euclidean_modulo_def fmod_nonneg)
  qed
qed

lemma euclidean_modulo_range:
  assumes "0 < y"
  shows "0 \<le> euclidean_modulo x y \<and> euclidean_modulo x y < y"
  using assms floor_mult_le [of y x] lt_floor_mult [of y x]
  by (simp add: euclidean_modulo_floor algebra_simps)

lemma euclidean_modulo_id: "0 \<le> x \<Longrightarrow> x < y \<Longrightarrow> euclidean_modulo x y = x"
  by (simp add: euclidean_modulo_def)

lemma euclidean_modulo_shift:
  assumes "0 < y" "of_int k * y \<le> x" "x < (of_int k + 1) * y"
  shows "euclidean_modulo x y = x - of_int k * y"
proof -
  have "of_int k \<le> x / y \<and> x / y < of_int k + 1"
    using assms by (simp add: field_simps)
  then have "\<lfloor>x / y\<rfloor> = k" by (simp add: floor_unique)
  then show ?thesis using assms by (simp add: euclidean_modulo_floor)
qed

lemma rgb_to_hsv_red_wrap_aux:
  assumes "0 \<le> r" "r \<le> 255" "0 \<le> g" "g \<le> 255" "0 \<le> b" "b \<le> 255"
      and "b \<le> r" "g < b"
  shows "rgb_to_hsv r g b = Returned (360 - 60 * (b - g) / (r - g), (r - g) / r, r / 255)"
proof -
  have rg: "g < r" using assms by simp
  have mx: "max (r / 255) (max (g / 255) (b / 255)) = r / 255" using assms by (simp add: max_def)
  have mn: "min (r / 255) (min (g / 255) (b / 255)) = g / 255" using assms by (simp add: min_def)
  have q: "(g / 255 - b / 255) / (r / 255 - g / 255) = (g - b) / (r - g)"
    using rg by (simp add: field_simps)
  have lo: "- 1 \<le> (g - b) / (r - g)" using assms rg by (simp add: field_simps)
  have hi: "(g - b) / (r - g) < 0" using assms rg by (simp add: field_simps)
  have em: "euclidean_modulo ((g - b) / (r - g)) 6 = (g - b) / (r - g) + 6"
    using euclidean_modulo_shift [of 6 "-1" "(g - b) / (r - g)"] lo hi by simp
  have s: "(r / 255 - g / 255) / (r / 255) = (r - g) / r" using rg assms by (simp add: field_simps)
  have h: "((g - b) / (r - g) + 6) * 60 = 360 - 60 * (b - g) / (r - g)"
    using rg by (simp add: field_simps)
  have rpos: "r \<noteq> 0" "r \<noteq> g" using rg assms by auto
  show ?thesis using assms rpos
    by (simp add: rgb_to_hsv_def Let_def mx mn q em s) (simp add: field_simps)
qed

lemma max3_div: "max (r / 255) (max (g / 255) (b / 255)) = max r (max g b) / (255::real)"
  by (simp add: max_def)

lemma min3_div: "min (r / 255) (min (g / 255) (b / 255)) = min r (min g b) / (255::real)"
  by (simp add: min_def)

lemma rgb_to_hsv_grey:
  assumes "0 \<le> r" "r \<le> 255"
  shows "rgb_to_hsv r r r = Returned (0, 0, r / 255)"
  using assms by (simp add: rgb_to_hsv_def Let_def)

lemma rgb_to_hsv_eval:
  assumes "0 \<le> r" "r \<le> 255" "0 \<le> g" "g \<le> 255" "0 \<le> b" "b \<le> 255"
      and mx: "mx = max r (max g b)" and mn: "mn = min r (min g b)" and d: "mn < mx"
  shows "rgb_to_hsv r g b = Returned
           ((if mx = r then euclidean_modulo ((g - b) / (mx - mn)) 6
             else if mx = g then (b - r) / (mx - mn) + 2
             else (r - g) / (mx - mn) + 4) * 60,
            (mx - mn) / mx, mx / 255)"
proof -
  have pos: "0 < mx" using assms by (simp add: max_def min_def split: if_splits)
  have q: "(x / 255 - y / 255) / (mx / 255 - mn / 255) = (x - y) / (mx - mn)" for x y :: real
    using d by (simp add: field_simps)
  have s: "(mx / 255 - mn / 255) / (mx / 255) = (mx - mn) / mx"
    using pos by (simp add: field_simps)
  have ne: "mx / 255 - mn / 255 \<noteq> 0" "mx \<noteq> 0" "mx - mn \<noteq> 0" using d pos by simp_all
  have nz: "(mx - mn) / mx \<noteq> 0" using ne by simp
  show ?thesis
    using assms(1-6) ne nz
    unfolding rgb_to_hsv_def Let_def max3_div min3_div mx [symmetric] mn [symmetric] q s
    by simp
qed

lemma piecewise_hue_reduced:
  assumes mx: "mx = max r (max g b)" and mn: "mn = min r (min g b)" and d: "mn < mx"
  shows "(if mx = r then euclidean_modulo ((g - b) / (mx - mn)) 6
          else if mx = g then (b - r) / (mx - mn) + 2
          else (r - g) / (mx - mn) + 4)
         = euclidean_modulo
             (if mx = r then (g - b) / (mx - mn)
              else if mx = g then (b - r) / (mx - mn) + 2
              else (r - g) / (mx - mn) + 4) 6"
proof -
  have q: "- 1 \<le> (x - y) / (mx - mn) \<and> (x - y) / (mx - mn) \<le> 1"
    if "mn \<le> x" "x \<le> mx" "mn \<le> y" "y \<le> mx" for x y
    using that d by (simp add: field_simps)
  have br: "- 1 \<le> (b - r) / (mx - mn) \<and> (b - r) / (mx - mn) \<le> 1"
    by (rule q) (simp_all add: mx mn)
  have rg: "- 1 \<le> (r - g) / (mx - mn) \<and> (r - g) / (mx - mn) \<le> 1"
    by (rule q) (simp_all add: mx mn)
  have e2: "euclidean_modulo ((b - r) / (mx - mn) + 2) 6 = (b - r) / (mx - mn) + 2"
    using br by (intro euclidean_modulo_id) simp_all
  have e4: "euclidean_modulo ((r - g) / (mx - mn) + 4) 6 = (r - g) / (mx - mn) + 4"
    using rg by (intro euclidean_modulo_id) simp_all
  show ?thesis
    by (simp only: if_distrib [of "\<lambda>x. euclidean_modulo x 6"] e2 e4)
qed

lemma rgb_to_hsv_hue_aux:
  assumes rng: "0 \<le> r" "r \<le> 255" "0 \<le> g" "g \<le> 255" "0 \<le> b" "b \<le> 255"
      and mx: "mx = max r (max g b)" and mn: "mn = min r (min g b)"
  shows "\<exists>h s v. rgb_to_hsv r g b = Returned (h, s, v)
           \<and> 0 \<le> h \<and> h < 360
           \<and> (mx = mn \<or> s = 0 \<longrightarrow> h = 0)
           \<and> (mn < mx \<longrightarrow>
                 h = 60 * euclidean_modulo
                        (if mx = r then (g - b) / (mx - mn)
                         else if mx = g then (b - r) / (mx - mn) + 2
                         else (r - g) / (mx - mn) + 4) 6)"
proof (cases "mn < mx")
  case True
  define p where "p = (if mx = r then (g - b) / (mx - mn)
              else if mx = g then (b - r) / (mx - mn) + 2
              else (r - g) / (mx - mn) + 4)"
  define H where "H = euclidean_modulo p 6 * 60"
  define S where "S = (mx - mn) / mx"
  have pos: "0 < mx" using True rng mn by (simp add: min_def split: if_splits)
  have f: "rgb_to_hsv r g b = Returned (H, S, mx / 255)"
    using rgb_to_hsv_eval [OF rng mx mn True] piecewise_hue_reduced [OF mx mn True]
    by (simp add: p_def H_def S_def)
  have "0 \<le> euclidean_modulo p 6 \<and> euclidean_modulo p 6 < 6"
    by (rule euclidean_modulo_range) simp
  then have h: "0 \<le> H" "H < 360" by (simp_all add: H_def)
  have s: "S \<noteq> 0" "mx \<noteq> mn" using True pos by (simp_all add: S_def)
  have e: "H = 60 * euclidean_modulo p 6" by (simp add: H_def)
  show ?thesis using f h s e unfolding p_def by blast
next
  case False
  have "mn \<le> mx" by (simp add: mx mn min_def max_def)
  then have e: "mx = mn" using False by simp
  have "g = r \<and> b = r" using e by (simp add: mx mn min_def max_def split: if_splits)
  then have "rgb_to_hsv r g b = Returned (0, 0, r / 255)"
    using rng rgb_to_hsv_grey [of r] by simp
  then show ?thesis using False
    by (intro exI [of _ 0] exI [of _ "r / 255"]) simp
qed

text \<open>
  C7: for every (r, g, b) with each channel in [0, 255], the hue of \<^verbatim>\<open>rgb_to_hsv\<close>
  lies in [0, 360); it is 0 when the maximum and the minimum channel are equal or the
  saturation is 0; otherwise it is 60 times the Euclidean (never negative) reduction
  modulo 6 of the piecewise intermediate value; when red is the maximum and g < b the
  intermediate value is negative and the hue wraps to 360 plus 60 times it, at least 300.
\<close>
theorem rgb_to_hsv_hue_in_range:
  assumes "0 \<le> r" "r \<le> 255" "0 \<le> g" "g \<le> 255" "0 \<le> b" "b \<le> 255"
  shows "\<exists>h s v. rgb_to_hsv r g b = Returned (h, s, v)
           \<and> 0 \<le> h \<and> h < 360
           \<and> (max r (max g b) = min r (min g b) \<or> s = 0 \<longrightarrow> h = 0)
           \<and> (min r (min g b) < max r (max g b) \<longrightarrow>
                 h = 60 * euclidean_modulo
                        (if max r (max g b) = r
                           then (g - b) / (max r (max g b) - min r (min g b))
                         else if max r (max g b) = g
                           then (b - r) / (max r (max g b) - min r (min g b)) + 2
                         else (r - g) / (max r (max g b) - min r (min g b)) + 4) 6)
           \<and> (b \<le> r \<and> g < b \<longrightarrow>
                 (g - b) / (r - g) < 0 \<and> h = 360 + 60 * ((g - b) / (r - g)) \<and> 300 \<le> h)"
proof -
  obtain h s v where f: "rgb_to_hsv r g b = Returned (h, s, v)"
    and p: "0 \<le> h" "h < 360" "max r (max g b) = min r (min g b) \<or> s = 0 \<longrightarrow> h = 0"
       "min r (min g b) < max r (max g b) \<longrightarrow>
                 h = 60 * euclidean_modulo
                        (if max r (max g b) = r
                           then (g - b) / (max r (max g b) - min r (min g b))
                         else if max r (max g b) = g
                           then (b - r) / (max r (max g b) - min r (min g b)) + 2
                         else (r - g) / (max r (max g b) - min r (min g b)) + 4) 6"
    using rgb_to_hsv_hue_aux [OF assms refl refl] by blast
  have w: "(g - b) / (r - g) < 0 \<and> h = 360 + 60 * ((g - b) / (r - g)) \<and> 300 \<le> h"
    if a: "b \<le> r" "g < b"
  proof -
    have rg: "g < r" using a by simp
    have "rgb_to_hsv r g b = Returned (360 - 60 * (b - g) / (r - g), (r - g) / r, r / 255)"
      using rgb_to_hsv_red_wrap_aux [OF assms a] .
    then have h: "h = 360 - 60 * (b - g) / (r - g)" using f by simp
    have n: "(g - b) / (r - g) < 0" using a rg by (simp add: field_simps)
    have e: "360 - 60 * (b - g) / (r - g) = 360 + 60 * ((g - b) / (r - g))"
      using rg by (simp add: field_simps)
    have "300 \<le> 360 - 60 * (b - g) / (r - g)" using a rg by (simp add: field_simps)
    then show ?thesis using h n e by simp
  qed
  show ?thesis using f p w by blast
qed

theorem rgb_to_hsv_hue_in_range_witness:
  "(\<exists>h s v. rgb_to_hsv 200 10 100 = Returned (h, s, v) \<and> 300 \<le> h \<and> h < 360)
   \<and> (\<exists>h s v. rgb_to_hsv 7 7 7 = Returned (h, s, v) \<and> h = 0)"
proof -
  have p: "(0::real) \<le> 200" "(200::real) \<le> 255" "(0::real) \<le> 10" "(10::real) \<le> 255"
    "(0::real) \<le> 100" "(100::real) \<le> 255" by simp_all
  have q: "(0::real) \<le> 7" "(7::real) \<le> 255" by simp_all
  obtain h s v where f: "rgb_to_hsv 200 10 100 = Returned (h, s, v)" and u: "h < 360"
    and w: "(100::real) \<le> 200 \<and> (10::real) < 100 \<longrightarrow>
              (10 - 100) / (200 - 10) < (0::real) \<and> h = 360 + 60 * ((10 - 100) / (200 - 10))
              \<and> 300 \<le> h"
    using rgb_to_hsv_hue_in_range [OF p] by blast
  have l: "300 \<le> h" using w by simp
  obtain h' s' v' where f': "rgb_to_hsv 7 7 7 = Returned (h', s', v')"
    and z: "max 7 (max 7 7) = min 7 (min 7 (7::real)) \<or> s' = 0 \<longrightarrow> h' = 0"
    using rgb_to_hsv_hue_in_range [OF q q q] by blast
  have "h' = 0" using z by simp
  then show ?thesis using f u l f' by blast
qed

text \<open>
  C1: \<^verbatim>\<open>rgb_to_hsv\<close> is claimed to return saturation and value as integers on the
  scale 0-255. At (128, 64, 64) the source returns saturation 1/2 and value 128/255:
  both are the ratios in [0, 1], not scaled to 0-255 and not integers.
\<close>
theorem rgb_to_hsv_saturation_value_not_scaled:
  "rgb_to_hsv 128 64 64 = Returned (0, 1 / 2, 128 / 255)"
  by (simp add: rgb_to_hsv_def Let_def euclidean_modulo_def)

section \<open>Properties of the store primitives\<close>

text \<open>
  The claim C3 as written: every store primitive answers a failed operation with a null
  or false first value followed by an error-message string. It fails for
  \<^verbatim>\<open>save_image\<close>, which pushes only \<^verbatim>\<open>false\<close>, and for
  \<^verbatim>\<open>get_pixel\<close>, which pushes nothing, on an operation that did not find the
  handle.
\<close>

theorem store_failure_signal_counterexample:
  "\<not> success (rejecting_save 1 ''out.png'' \<lparr>format = [], compression = 0\<rparr>)
   \<and> snd (save_image rejecting_save \<lparr>format = [], compression = 0\<rparr> 1 ''out.png'' None)
       = failed_with ''save_image'' ''HandleNotFound'' [LBool False]
   \<and> \<not> falsy_with_message
         (returned (snd (save_image rejecting_save \<lparr>format = [], compression = 0\<rparr> 1
                           ''out.png'' None)))
   \<and> \<not> success handle_not_found
   \<and> get_pixel 0 0 handle_not_found = failed_with ''get_pixel'' ''HandleNotFound'' []
   \<and> \<not> falsy_with_message (returned (get_pixel 0 0 handle_not_found))"
  by (simp add: save_image_def rejecting_save_def read_save_options_def failed_with_def
        get_pixel_def handle_not_found_def Let_def)

text \<open>
  C3, as amended: whenever the underlying operation fails, each store primitive reports
  the error once to the host (its own name and the operation's message) and hands the
  script a null, false or absent first value: \<^verbatim>\<open>load_image\<close> and
  \<^verbatim>\<open>allocate_image\<close> return nil followed by the message string;
  \<^verbatim>\<open>save_image\<close> and \<^verbatim>\<open>display_in_current_window\<close> return only false;
  \<^verbatim>\<open>unload_image\<close>, \<^verbatim>\<open>get_pixel\<close> and \<^verbatim>\<open>get_image_dimensions\<close>
  return no value. Only the first of these three shapes carries the message string.
\<close>

theorem store_failure_reported_and_falsy:
  assumes "\<not> success res"
  shows "load_image res = failed_with ''load_image'' (message res) [LNil, LString (message res)]
   \<and> (0 < w \<and> 0 < h \<longrightarrow>
        allocate_image w h res
          = failed_with ''allocate_image'' (message res) [LNil, LString (message res)])
   \<and> unload_image res = failed_with ''unload_image'' (message res) []
   \<and> (save_op (int_cast hnd) path (read_save_options fresh tbl) = res \<longrightarrow>
        snd (save_image save_op fresh hnd path tbl)
          = failed_with ''save_image'' (message res) [LBool False])
   \<and> (0 \<le> x \<and> 0 \<le> y \<longrightarrow>
        get_pixel x y res = failed_with ''get_pixel'' (message res) [])
   \<and> (1 \<le> gettop \<and> isnum \<longrightarrow>
        get_image_dimensions gettop isnum res
          = failed_with ''get_image_dimensions'' (message res) [])
   \<and> display_in_current_window res
        = failed_with ''display_in_current_window'' (message res) [LBool False]
   \<and> (\<forall>fn vs. reported (failed_with fn (message res) vs) = Some (fn, message res))
   \<and> lua_falsy (primary [LNil, LString (message res)])
   \<and> lua_falsy (primary [LBool False])
   \<and> lua_falsy (primary [])
   \<and> falsy_with_message [LNil, LString (message res)]
   \<and> \<not> falsy_with_message [LBool False]
   \<and> \<not> falsy_with_message []"
  using assms
  by (auto simp: load_image_def allocate_image_def unload_image_def save_image_def Let_def
        get_pixel_def get_image_dimensions_def display_in_current_window_def failed_with_def)

theorem store_failure_reported_and_falsy_witness:
  "\<not> success handle_not_found
   \<and> returned (load_image handle_not_found) = [LNil, LString ''HandleNotFound'']
   \<and> returned (allocate_image 1 1 handle_not_found) = [LNil, LString ''HandleNotFound'']
   \<and> returned (unload_image handle_not_found) = []
   \<and> returned (snd (save_image rejecting_save \<lparr>format = [], compression = 0\<rparr> 1
                        ''out.png'' None)) = [LBool False]
   \<and> returned (get_pixel 0 0 handle_not_found) = []
   \<and> returned (get_image_dimensions 1 True handle_not_found) = []
   \<and> returned (display_in_current_window handle_not_found) = [LBool False]"
proof -
  have f: "\<not> success handle_not_found" by (simp add: handle_not_found_def)
  have s: "rejecting_save (int_cast 1) ''out.png''
             (read_save_options \<lparr>format = [], compression = 0\<rparr> None) = handle_not_found"
    by (simp add: rejecting_save_def handle_not_found_def)
  have m: "message handle_not_found = ''HandleNotFound''" by (simp add: handle_not_found_def)
  show ?thesis
    using store_failure_reported_and_falsy
            [OF f, of 1 1 rejecting_save 1 "''out.png''" "\<lparr>format = [], compression = 0\<rparr>"
               None 0 0 1 True] f s
    by (simp add: m failed_with_def)
qed

text \<open>
  What the bridge does with the compression value (lines 313-319, 323): a numeric
  \<^verbatim>\<open>compression\<close> field is cast to \<^verbatim>\<open>int\<close> and handed to the interpreter's
  save operation as it is; without the field the value of the fresh options stays; and
  the primitive succeeds or fails exactly as the interpreter's operation does. What that
  operation does with the value is not part of the bridge.
\<close>

lemma save_image_forwards_compression:
  "compression (fst (save_image save_op fresh hnd path
        (Some \<lparr>format_field = f, compression_field = Some n\<rparr>))) = int_cast n
   \<and> (- (2 ^ 31) \<le> n \<and> n < 2 ^ 31 \<longrightarrow>
        sint (compression (fst (save_image save_op fresh hnd path
                (Some \<lparr>format_field = f, compression_field = Some n\<rparr>)))) = n)
   \<and> compression (fst (save_image save_op fresh hnd path
        (Some \<lparr>format_field = f, compression_field = None\<rparr>))) = compression fresh
   \<and> compression (fst (save_image save_op fresh hnd path None)) = compression fresh
   \<and> snd (save_image save_op fresh hnd path tbl)
       = (if success (save_op (int_cast hnd) path (read_save_options fresh tbl))
          then gave_back [LBool True]
          else failed_with ''save_image''
                 (message (save_op (int_cast hnd) path (read_save_options fresh tbl)))
                 [LBool False])"
proof -
  have c: "compression (fst (save_image save_op fresh hnd path
        (Some \<lparr>format_field = f, compression_field = Some n\<rparr>))) = int_cast n"
    by (simp add: save_image_def read_save_options_def Let_def split: option.splits)
  have "sint (int_cast n) = n" if "- (2 ^ 31) \<le> n \<and> n < 2 ^ 31"
    using that unfolding int_cast_def
    by (simp add: sint_sbintrunc' signed_take_bit_int_eq_self)
  then show ?thesis unfolding c
    by (simp add: save_image_def read_save_options_def Let_def split: option.splits)
qed

section \<open>Properties of the traversal\<close>

lemma traverse_columns_foldl:
  "x \<le> width img \<Longrightarrow>
   traverse_columns img (\<lambda>r g b a x y.
       cb [LInteger r, LInteger g, LInteger b, LInteger a, LInteger x, LInteger y]) y x st
     = foldl (\<lambda>s args. cb args s) st (map (\<lambda>x. pixel_arguments img x y) [x ..< width img])"
proof (induction "width img - x" arbitrary: x st)
  case 0
  then show ?case by (subst traverse_columns.simps) simp
next
  case (Suc d)
  then have lt: "x < width img" and d: "d = width img - Suc x" by simp_all
  have "traverse_columns img (\<lambda>r g b a x y.
       cb [LInteger r, LInteger g, LInteger b, LInteger a, LInteger x, LInteger y]) y x st
      = traverse_columns img (\<lambda>r g b a x y.
       cb [LInteger r, LInteger g, LInteger b, LInteger a, LInteger x, LInteger y]) y (Suc x)
         (cb (pixel_arguments img x y) st)"
    using lt by (subst traverse_columns.simps) (simp add: pixel_arguments_def)
  also have "\<dots> = foldl (\<lambda>s args. cb args s) (cb (pixel_arguments img x y) st)
                      (map (\<lambda>x. pixel_arguments img x y) [Suc x ..< width img])"
    using Suc.hyps(1) [OF d] lt by simp
  finally show ?case using lt by (simp add: upt_conv_Cons)
qed

lemma traverse_rows_foldl:
  "y \<le> height img \<Longrightarrow>
   traverse_rows img (\<lambda>r g b a x y.
       cb [LInteger r, LInteger g, LInteger b, LInteger a, LInteger x, LInteger y]) y st
     = foldl (\<lambda>s args. cb args s) st
         (concat (map (\<lambda>y. map (\<lambda>x. pixel_arguments img x y) [0 ..< width img])
                      [y ..< height img]))"
proof (induction "height img - y" arbitrary: y st)
  case 0
  then show ?case by (subst traverse_rows.simps) simp
next
  case (Suc d)
  then have lt: "y < height img" and d: "d = height img - Suc y" by simp_all
  show ?case
    using lt Suc.hyps(1) [OF d]
    by (subst traverse_rows.simps) (simp add: traverse_columns_foldl upt_conv_Cons)
qed

lemma length_row_major_visits: "length (row_major_visits img) = width img * height img"
  by (simp add: row_major_visits_def length_concat comp_def sum_list_triv)

lemma length_concat_rows:
  "\<forall>y<h. length (f y) = w \<Longrightarrow> length (concat (map f [0 ..< h])) = h * w"
  by (induction h) simp_all

lemma nth_concat_rows:
  assumes "\<forall>y<h. length (f y) = w" "y < h" "x < w"
  shows "concat (map f [0 ..< h]) ! (y * w + x) = f y ! x"
  using assms
proof (induction h)
  case 0
  then show ?case by simp
next
  case (Suc h)
  have len: "length (concat (map f [0 ..< h])) = h * w"
    using Suc.prems(1) by (intro length_concat_rows) simp
  show ?case
  proof (cases "y < h")
    case True
    have "y * w + x < Suc y * w" using Suc.prems(3) by simp
    also have "\<dots> \<le> h * w" using True by (intro mult_le_mono1) simp
    finally have "y * w + x < h * w" .
    then show ?thesis using Suc True len by (simp add: nth_append)
  next
    case False
    then have "y = h" using Suc.prems(2) by simp
    then show ?thesis using Suc.prems len by (simp add: nth_append)
  qed
qed

lemma nth_row_major_visits:
  assumes "x < width img" "y < height img"
  shows "row_major_visits img ! (y * width img + x) = pixel_arguments img x y"
  unfolding row_major_visits_def using assms
  by (subst nth_concat_rows [where w = "width img"]) simp_all

lemma uint_byte: "uint w \<le> 255" for w :: "8 word"
proof -
  have "uint w < 256" using uint_bounded [of w] by simp
  then show ?thesis by linarith
qed

lemma channel_byte: "0 \<le> channel img x y c \<and> channel img x y c \<le> 255"
  unfolding channel_def using uint_byte by simp

text \<open>
  C5: for a handle of the store, \<^verbatim>\<open>traverse_image\<close> calls the script callback on
  the row-major list of visits and on nothing else: the list has width times height
  entries, the entry at position \<open>y * width + x\<close> is the visit of pixel \<open>(x, y)\<close>,
  and its arguments are, in this order, r, g, b, a (each in 0..255), x and y, with
  0-based coordinates.
\<close>

theorem traverse_image_row_major:
  assumes "store imgno = Some img"
  shows "traverse_image store imgno script_callback st
           = ([], foldl (\<lambda>s args. script_callback args s) st (row_major_visits img))
         \<and> length (row_major_visits img) = width img * height img
         \<and> (\<forall>y x. x < width img \<and> y < height img \<longrightarrow>
               row_major_visits img ! (y * width img + x)
                 = [LInteger (channel img x y 0), LInteger (channel img x y 1),
                    LInteger (channel img x y 2), LInteger (channel img x y 3),
                    LInteger (int x), LInteger (int y)]
               \<and> (\<forall>c. 0 \<le> channel img x y c \<and> channel img x y c \<le> 255))"
proof (intro conjI allI impI)
  show "traverse_image store imgno script_callback st
           = ([], foldl (\<lambda>s args. script_callback args s) st (row_major_visits img))"
    using assms
    by (simp add: traverse_image_def traverse_def traverse_rows_foldl row_major_visits_def)
  show "length (row_major_visits img) = width img * height img"
    by (rule length_row_major_visits)
next
  fix y x assume "x < width img \<and> y < height img"
  then show "row_major_visits img ! (y * width img + x)
                 = [LInteger (channel img x y 0), LInteger (channel img x y 1),
                    LInteger (channel img x y 2), LInteger (channel img x y 3),
                    LInteger (int x), LInteger (int y)]"
    by (simp add: nth_row_major_visits pixel_arguments_def)
next
  fix y x c
  show "0 \<le> channel img x y c" "channel img x y c \<le> 255"
    using channel_byte [of img x y c] by simp_all
qed

theorem traverse_image_row_major_witness:
  "[1 \<mapsto> \<lparr>width = 2, height = 2, pitch = 8,
            buffer = [1, 2, 3, 4, 5, 6, 7, 8, 9, 10, 11, 12, 13, 14, 15, 16]\<rparr>] (1::int)
     = Some \<lparr>width = 2, height = 2, pitch = 8,
              buffer = [1, 2, 3, 4, 5, 6, 7, 8, 9, 10, 11, 12, 13, 14, 15, 16]\<rparr>
   \<and> traverse_image
        [1 \<mapsto> \<lparr>width = 2, height = 2, pitch = 8,
                 buffer = [1, 2, 3, 4, 5, 6, 7, 8, 9, 10, 11, 12, 13, 14, 15, 16]\<rparr>] 1
        (\<lambda>args log. log @ [args]) []
     = ([], [[LInteger 1, LInteger 2, LInteger 3, LInteger 4, LInteger 0, LInteger 0],
             [LInteger 5, LInteger 6, LInteger 7, LInteger 8, LInteger 1, LInteger 0],
             [LInteger 9, LInteger 10, LInteger 11, LInteger 12, LInteger 0, LInteger 1],
             [LInteger 13, LInteger 14, LInteger 15, LInteger 16, LInteger 1, LInteger 1]])"
proof -
  let ?img = "\<lparr>width = 2, height = 2, pitch = 8,
              buffer = [1, 2, 3, 4, 5, 6, 7, 8, 9, 10, 11, 12, 13, 14, 15, 16 :: 8 word]\<rparr>"
  let ?visits = "[[LInteger 1, LInteger 2, LInteger 3, LInteger 4, LInteger 0, LInteger 0],
             [LInteger 5, LInteger 6, LInteger 7, LInteger 8, LInteger 1, LInteger 0],
             [LInteger 9, LInteger 10, LInteger 11, LInteger 12, LInteger 0, LInteger 1],
             [LInteger 13, LInteger 14, LInteger 15, LInteger 16, LInteger 1, LInteger 1]]"
  have s: "[1 \<mapsto> ?img] (1::int) = Some ?img" by simp
  have v: "row_major_visits ?img = ?visits" by code_simp
  have f: "foldl (\<lambda>s args. s @ [args]) [] ?visits = ?visits"
    by (simp only: foldl.simps append.simps)
  have "traverse_image [1 \<mapsto> ?img] 1 (\<lambda>args log. log @ [args]) []
          = ([], foldl (\<lambda>s args. s @ [args]) [] (row_major_visits ?img))"
    by (rule traverse_image_row_major
          [where store = "[1 \<mapsto> ?img]" and imgno = 1 and img = ?img
             and script_callback = "\<lambda>args log. log @ [args]" and st = "[]",
           OF s, THEN conjunct1])
  then have "traverse_image [1 \<mapsto> ?img] 1 (\<lambda>args log. log @ [args]) [] = ([], ?visits)"
    by (simp only: v f)
  with s show ?thesis by (rule conjI)
qed

section \<open>Properties of the zig-zag scan order\<close>

text \<open>
  On a state of the enumeration the primitive is the scan-order step, between the casts
  of its parameters and the integers it pushes.
\<close>

lemma state_of_code_state_code: "state_of_code (state_code s) = Some s"
  by (cases s) (simp_all add: state_of_code_def)

lemma zig_zag_order_step:
  "zig_zag_order [Some x, Some y, Some w, Some h, Some (sint (state_code s))]
     = (case zig_zag_step (int_cast x) (int_cast y) (int_cast w) (int_cast h) s of
          (x', y', s') \<Rightarrow> Returned (sint x', sint y', sint (state_code s')))"
proof -
  have c: "int_cast (sint (state_code s)) = state_code s" by (simp add: int_cast_def)
  have e: "(if atbottom (int_cast y) (int_cast h) \<and> allright (int_cast x) (int_cast w)
            then state_code End else state_code s)
           = state_code (if atbottom (int_cast y) (int_cast h) \<and> allright (int_cast x) (int_cast w)
                         then End else s)"
    by simp
  show ?thesis
    unfolding zig_zag_order_def zig_zag_step_def
    by (simp add: Let_def c e state_of_code_state_code del: state_code.simps)
qed

text \<open>
  C6: \<^verbatim>\<open>zig_zag_order\<close>, called with state 0 (\<^verbatim>\<open>Initial\<close>) at (0, 0) on a
  3-by-3 grid and then again and again with the (x, y, state) it returned, returns nine
  positions before the state \<open>-1\<close> (\<^verbatim>\<open>End\<close>) comes back at the tenth call:
  they are pairwise distinct and are exactly the nine cells of the grid. A call made
  with the state \<^verbatim>\<open>End\<close> returns the position it was given and \<^verbatim>\<open>End\<close>
  again, for every position, width and height. The same holds of the step on the states
  of the enumeration.
\<close>

theorem zig_zag_three_by_three:
  "(\<exists>ps. zig_zag_order_walk 10 3 3 0 0 0 = Some ps
         \<and> length ps = 9 \<and> distinct ps \<and> set ps = {0, 1, 2} \<times> {0, 1, 2})
   \<and> zig_zag_order_walk 10 3 3 0 0 0
        = Some [(0, 0), (1, 0), (0, 1), (0, 2), (1, 1), (2, 0), (2, 1), (1, 2), (2, 2)]
   \<and> zig_zag_order [Some 2, Some 2, Some 3, Some 3, Some 4] = Returned (2, 2, - 1)
   \<and> (\<forall>x y w h. zig_zag_order [Some x, Some y, Some w, Some h, Some (- 1)]
                   = Returned (sint (int_cast x), sint (int_cast y), - 1))
   \<and> zig_zag_order [Some 7, Some 9, Some 3, Some 3, Some (- 1)] = Returned (7, 9, - 1)
   \<and> (\<exists>ps. zig_zag_walk 10 3 3 0 0 Initial = Some ps
         \<and> length ps = 9 \<and> distinct ps \<and> set ps = {0, 1, 2} \<times> {0, 1, 2})
   \<and> zig_zag_step 2 2 3 3 UpRight = (2, 2, End)
   \<and> (\<forall>x y w h. zig_zag_step x y w h End = (x, y, End))"
proof -
  have ow: "zig_zag_order_walk 10 3 3 0 0 0
        = Some [(0, 0), (1, 0), (0, 1), (0, 2), (1, 1), (2, 0), (2, 1), (1, 2), (2, 2)]"
    by code_simp
  have od: "distinct [(0, 0), (1, 0), (0, 1), (0, 2), (1, 1), (2, 0), (2, 1), (1, 2), (2 :: int, 2 :: int)]"
    by simp
  have os: "set [(0, 0), (1, 0), (0, 1), (0, 2), (1, 1), (2, 0), (2, 1), (1, 2), (2 :: int, 2 :: int)]
             = {0, 1, 2} \<times> {0, 1, 2}"
    by auto
  have ol: "zig_zag_order [Some 2, Some 2, Some 3, Some 3, Some 4] = Returned (2, 2, - 1)"
    by code_simp
  have oe: "zig_zag_order [Some x, Some y, Some w, Some h, Some (- 1)]
                   = Returned (sint (int_cast x), sint (int_cast y), - 1)" for x y w h
    by (simp add: zig_zag_order_def Let_def state_of_code_def int_cast_def zig_zag_loop.simps)
  have oc: "zig_zag_order [Some 7, Some 9, Some 3, Some 3, Some (- 1)] = Returned (7, 9, - 1)"
    by code_simp
  have w: "zig_zag_walk 10 3 3 0 0 Initial
        = Some [(0, 0), (1, 0), (0, 1), (0, 2), (1, 1), (2, 0), (2, 1), (1, 2), (2, 2)]"
    by code_simp
  have d: "distinct [(0, 0), (1, 0), (0, 1), (0, 2), (1, 1), (2, 0), (2, 1), (1, 2), (2 :: 32 word, 2 :: 32 word)]"
    by simp
  have s: "set [(0, 0), (1, 0), (0, 1), (0, 2), (1, 1), (2, 0), (2, 1), (1, 2), (2 :: 32 word, 2 :: 32 word)]
             = {0, 1, 2} \<times> {0, 1, 2}"
    by auto
  have l: "zig_zag_step 2 2 3 3 UpRight = (2, 2, End)"
    by (simp add: zig_zag_step_def zig_zag_loop.simps atbottom_def allright_def)
  have e: "zig_zag_step x y w h End = (x, y, End)" for x y w h
    by (simp add: zig_zag_step_def zig_zag_loop.simps)
  show ?thesis using ow od os ol oe oc w d s l e by simp
qed

section \<open>Properties of the displayed-image lookup\<close>

lemma get_displayed_image_cached:
  assumes "current_image_global st \<noteq> LNil"
  shows "get_displayed_image_times n gci st = (replicate n [current_image_global st], st)"
  using assms by (induction n) (simp_all add: get_displayed_image_def)

text \<open>
  C9: in a run whose global \<^verbatim>\<open>__current_image\<close> is still nil, the first call of
  \<^verbatim>\<open>get_displayed_image\<close> asks the interpreter for the caller image and stores
  the handle; that call and every later one return this same handle, and after any
  number of calls the interpreter has been asked exactly once.
\<close>

theorem get_displayed_image_resolves_once:
  assumes "current_image_global st = LNil"
  shows "get_displayed_image_times (Suc n) get_caller_image st
           = (replicate (Suc n) [LInteger (get_caller_image (resolutions st))],
              st\<lparr>resolutions := Suc (resolutions st),
                 current_image_global := LInteger (get_caller_image (resolutions st))\<rparr>)"
proof -
  define st' where "st' = st\<lparr>resolutions := Suc (resolutions st),
                 current_image_global := LInteger (get_caller_image (resolutions st))\<rparr>"
  have f: "get_displayed_image get_caller_image st
             = ([LInteger (get_caller_image (resolutions st))], st')"
    using assms by (simp add: get_displayed_image_def Let_def st'_def)
  have "current_image_global st' \<noteq> LNil" by (simp add: st'_def)
  then have "get_displayed_image_times n get_caller_image st'
               = (replicate n [current_image_global st'], st')"
    by (rule get_displayed_image_cached)
  then show ?thesis using f by (simp add: st'_def)
qed

theorem get_displayed_image_resolves_once_witness:
  "current_image_global fresh_run = LNil
   \<and> get_displayed_image_times 3 (\<lambda>n. 10 + int n) fresh_run
       = ([[LInteger 10], [LInteger 10], [LInteger 10]],
          \<lparr>current_image_global = LInteger 10, resolutions = 1\<rparr>)"
  using get_displayed_image_resolves_once [of fresh_run 2 "\<lambda>n. 10 + int n"]
  by (simp add: fresh_run_def numeral_3_eq_3)

section \<open>Properties of the sorted list of shortcuts\<close>

lemma find_all_from_partition:
  assumes "first \<le> y" "y \<le> first + n" "first + n \<le> length xs"
      and "\<forall>i. first \<le> i \<and> i < y \<longrightarrow> \<not> f (xs ! i)"
      and "\<forall>i. y \<le> i \<and> i < first + n \<longrightarrow> f (xs ! i)"
  shows "find_all_from f xs first n = y"
  using assms
proof (induction f xs first n rule: find_all_from.induct)
  case (1 f xs first n)
  show ?case
  proof (cases "n > 0")
    case False
    then show ?thesis using "1.prems" by (subst find_all_from.simps) simp
  next
    case pos: True
    define n2 where "n2 = n div 2"
    define mid where "mid = first + n2"
    have n2: "n2 < n" using pos by (simp add: n2_def)
    show ?thesis
    proof (cases "f (xs ! mid)")
      case True
      have "\<not> mid < y" using True "1.prems"(4) by (auto simp: mid_def)
      then have y: "y \<le> first + n2" by (simp add: mid_def)
      have "find_all_from f xs first n2 = y"
        using "1.IH"(2) [OF pos n2_def mid_def] True "1.prems" y n2 by simp
      then show ?thesis using pos True
        by (subst find_all_from.simps) (simp add: Let_def n2_def mid_def)
    next
      case False
      have "\<not> y \<le> mid" using False "1.prems"(5) n2 by (auto simp: mid_def)
      then have y: "mid + 1 \<le> y" by simp
      have "find_all_from f xs (mid + 1) (n - (n2 + 1)) = y"
        using "1.IH"(1) [OF pos n2_def mid_def] False "1.prems" y n2 by (simp add: mid_def)
      then show ?thesis using pos False
        by (subst find_all_from.simps) (simp add: Let_def n2_def mid_def)
    qed
  qed
qed

lemma find_all_partition:
  assumes "y \<le> length xs" "\<forall>i<y. \<not> f (xs ! i)" "\<forall>i. y \<le> i \<and> i < length xs \<longrightarrow> f (xs ! i)"
  shows "find_all xs f = y"
  unfolding find_all_def using assms by (intro find_all_from_partition) simp_all

lemma find_all_none:
  assumes "\<forall>a \<in> set xs. \<not> f a"
  shows "find_all xs f = length xs"
  using assms by (intro find_all_partition) simp_all

lemma sorted_key_split:
  fixes k :: "'a \<Rightarrow> 'b::linorder"
  assumes "sorted (map k xs)"
  shows "xs = filter (\<lambda>a. k a \<le> n) xs @ filter (\<lambda>a. n < k a) xs"
  using assms
proof (induction xs)
  case Nil
  then show ?case by simp
next
  case (Cons x xs)
  show ?case
  proof (cases "k x \<le> n")
    case True
    then show ?thesis using Cons by simp
  next
    case False
    then have "\<forall>a \<in> set xs. n < k a" using Cons.prems by auto
    then have "filter (\<lambda>a. k a \<le> n) xs = []" "filter (\<lambda>a. n < k a) xs = xs"
      by (auto simp: filter_empty_conv filter_id_conv)
    then show ?thesis using False by simp
  qed
qed

lemma sorted_partition_point:
  fixes k :: "'a \<Rightarrow> 'b::linorder"
  assumes "sorted (map k xs)" and y: "y = length (filter (\<lambda>a. k a \<le> n) xs)"
  shows "y \<le> length xs"
    and "take y xs = filter (\<lambda>a. k a \<le> n) xs"
    and "drop y xs = filter (\<lambda>a. n < k a) xs"
    and "\<forall>i<y. \<not> n < k (xs ! i)"
    and "\<forall>i. y \<le> i \<and> i < length xs \<longrightarrow> n < k (xs ! i)"
proof -
  have split: "xs = filter (\<lambda>a. k a \<le> n) xs @ filter (\<lambda>a. n < k a) xs"
    using assms(1) by (rule sorted_key_split)
  show le: "y \<le> length xs" by (simp add: y)
  show t: "take y xs = filter (\<lambda>a. k a \<le> n) xs"
    by (subst split) (simp add: y)
  show d: "drop y xs = filter (\<lambda>a. n < k a) xs"
    by (subst split) (simp add: y)
  show "\<forall>i<y. \<not> n < k (xs ! i)"
  proof (intro allI impI)
    fix i assume i: "i < y"
    then have "xs ! i = take y xs ! i" by simp
    also have "\<dots> \<in> set (take y xs)" using i le by (intro nth_mem) simp
    finally have "k (xs ! i) \<le> n" unfolding t by simp
    then show "\<not> n < k (xs ! i)" by simp
  qed
  show "\<forall>i. y \<le> i \<and> i < length xs \<longrightarrow> n < k (xs ! i)"
  proof (intro allI impI)
    fix i assume i: "y \<le> i \<and> i < length xs"
    then have "xs ! i = drop y xs ! (i - y)" using le by simp
    also have "\<dots> \<in> set (drop y xs)" using i by (intro nth_mem) auto
    finally show "n < k (xs ! i)" unfolding d by simp
  qed
qed

lemma sorted_insert_at:
  fixes k :: "'a \<Rightarrow> 'b::linorder"
  assumes "sorted (map k xs)" "k t = n"
  shows "sorted (map k (filter (\<lambda>a. k a \<le> n) xs @ t # filter (\<lambda>a. n < k a) xs))"
proof -
  have a: "sorted (map k (filter (\<lambda>a. k a \<le> n) xs))" "sorted (map k (filter (\<lambda>a. n < k a) xs))"
    using assms(1) by (simp_all add: sorted_map sorted_wrt_filter)
  show ?thesis using a assms(2)
    by (auto simp: sorted_append less_imp_le intro: less_imp_le order_trans)
qed

lemma add_new_item_inserts:
  fixes items :: "('s::linorder, 'k) ShortcutTriple list"
  assumes srt: "sorted (map display_name items)"
      and new: "\<not> sequence_already_exists items (to_sequence cmd)"
      and info: "get_shortcut_info cmd = Some name"
  shows "\<exists>pos. add_new_item get_shortcut_info to_sequence items cmd seq
                 = (take pos items @ \<lparr>command = cmd, display_name = name, sequence = seq\<rparr>
                      # drop pos items, Some pos)
           \<and> pos \<le> length items
           \<and> (\<forall>i<pos. \<not> name < display_name (items ! i))
           \<and> (\<forall>i. pos \<le> i \<and> i < length items \<longrightarrow> name < display_name (items ! i))
           \<and> sorted (map display_name
                 (fst (add_new_item get_shortcut_info to_sequence items cmd seq)))"
proof -
  define y where "y = length (filter (\<lambda>a. display_name a \<le> name) items)"
  define t :: "('s, 'k) ShortcutTriple"
    where "t = \<lparr>command = cmd, display_name = name, sequence = seq\<rparr>"
  note pp = sorted_partition_point [OF srt y_def]
  have pos: "find_all items (\<lambda>a. name < display_name a) = y"
    using pp(1,4,5) by (rule find_all_partition)
  have r: "add_new_item get_shortcut_info to_sequence items cmd seq
             = (take y items @ t # drop y items, Some y)"
    using new info pos by (simp add: add_new_item_def Let_def t_def)
  have "sorted (map display_name (take y items @ t # drop y items))"
    unfolding pp(2,3) using srt by (rule sorted_insert_at) (simp add: t_def)
  then show ?thesis using r pp(1,4,5) unfolding t_def by (intro exI [of _ y]) simp
qed

text \<open>
  C10: when the predicate is false on every element before position \<open>y\<close> and true on
  every element from \<open>y\<close> on, \<^verbatim>\<open>find_all\<close> returns \<open>y\<close>; it returns the length of
  the range when no element satisfies the predicate. So \<^verbatim>\<open>add_new_item\<close>, on a list
  sorted by display name, inserts the new shortcut at the first position whose display
  name is greater than the new one, and the list stays sorted.
\<close>

theorem find_all_partition_and_sorted_insert:
  fixes items :: "('s::linorder, 'k) ShortcutTriple list"
  shows
  "(y \<le> length xs \<and> (\<forall>i<y. \<not> f (xs ! i)) \<and> (\<forall>i. y \<le> i \<and> i < length xs \<longrightarrow> f (xs ! i))
      \<longrightarrow> find_all xs f = y)
   \<and> ((\<forall>a \<in> set xs. \<not> f a) \<longrightarrow> find_all xs f = length xs)
   \<and> (sorted (map display_name items)
        \<and> \<not> sequence_already_exists items (to_sequence cmd)
        \<and> get_shortcut_info cmd = Some name
      \<longrightarrow> (\<exists>pos. add_new_item get_shortcut_info to_sequence items cmd seq
                    = (take pos items @ \<lparr>command = cmd, display_name = name, sequence = seq\<rparr>
                         # drop pos items, Some pos)
              \<and> pos \<le> length items
              \<and> (\<forall>i<pos. \<not> name < display_name (items ! i))
              \<and> (\<forall>i. pos \<le> i \<and> i < length items \<longrightarrow> name < display_name (items ! i))
              \<and> sorted (map display_name
                    (fst (add_new_item get_shortcut_info to_sequence items cmd seq)))))"
  using find_all_partition [of y xs f] find_all_none [of xs f]
    add_new_item_inserts [of items to_sequence cmd get_shortcut_info name seq]
  by blast

theorem find_all_partition_and_sorted_insert_witness:
  "find_all [1, 3, 5, 7 :: nat] (\<lambda>a. 4 < a) = 2
   \<and> find_all [1, 3 :: nat] (\<lambda>a. 4 < a) = 2
   \<and> sorted (map display_name (fst (add_new_item (\<lambda>c. Some (2::nat)) (\<lambda>c. c)
        [\<lparr>command = 10, display_name = 1, sequence = 100 :: nat\<rparr>,
         \<lparr>command = 30, display_name = 3, sequence = 300\<rparr>] 20 200)))"
proof -
  define items :: "(nat, nat) ShortcutTriple list"
    where "items = [\<lparr>command = 10, display_name = 1, sequence = 100\<rparr>,
                    \<lparr>command = 30, display_name = 3, sequence = 300\<rparr>]"
  have a: "(2::nat) \<le> length [1, 3, 5, 7 :: nat]
        \<and> (\<forall>i<2. \<not> 4 < [1, 3, 5, 7 :: nat] ! i)
        \<and> (\<forall>i. 2 \<le> i \<and> i < length [1, 3, 5, 7 :: nat] \<longrightarrow> 4 < [1, 3, 5, 7 :: nat] ! i)"
    by (auto simp: nth_Cons' less_Suc_eq numeral_nat)
  have b: "\<forall>a \<in> set [1, 3 :: nat]. \<not> 4 < a" by simp
  have c: "sorted (map display_name items) \<and> \<not> sequence_already_exists items 20
             \<and> Some (2::nat) = Some 2"
    by (simp add: sequence_already_exists_def items_def)
  have r1: "find_all [1, 3, 5, 7 :: nat] (\<lambda>a. 4 < a) = 2"
    using find_all_partition_and_sorted_insert
            [of 2 "[1, 3, 5, 7 :: nat]" "\<lambda>a. 4 < a" items "\<lambda>c. c" 20 "\<lambda>c. Some 2" 2 200] a
    by blast
  have "find_all [1, 3 :: nat] (\<lambda>a. 4 < a) = length [1, 3 :: nat]"
    using find_all_partition_and_sorted_insert
            [of 2 "[1, 3 :: nat]" "\<lambda>a. 4 < a" items "\<lambda>c. c" 20 "\<lambda>c. Some 2" 2 200] b
    by blast
  then have r2: "find_all [1, 3 :: nat] (\<lambda>a. 4 < a) = 2" by simp
  have r3: "sorted (map display_name (fst (add_new_item (\<lambda>c. Some (2::nat)) (\<lambda>c. c) items 20 200)))"
    using find_all_partition_and_sorted_insert
            [of 2 "[1, 3 :: nat]" "\<lambda>a. 4 < a" items "\<lambda>c. c" 20 "\<lambda>c. Some 2" 2 200] c
    by blast
  show ?thesis using r1 r2 r3 unfolding items_def by blast
qed

end
